theory Spec2Isabelle
  imports Complex_Main
begin

section \<open>JavaScript numbers\<close>

text \<open>
  The numbers of \<^verbatim>\<open>face-recognition-service.js\<close> are IEEE-754 double-precision values.
  A finite double is modelled by the real number it denotes, and every arithmetic
  operation returns the exact result rounded to the nearest double, ties to the even
  significand, as the standard prescribes. The other values a computation can produce
  are explicit: \<open>NaN\<close> (an element read past the end of an array is \<open>undefined\<close>, which
  arithmetic turns into \<open>NaN\<close>; \<open>0 / 0\<close>) and the two infinities (overflow, a non-zero
  number divided by zero). The sign of a zero is not modelled. The elements of an
  embedding are doubles; the definitions are total on the reals all the same.
\<close>

datatype jsnum = Num real | Inf bool | NaN

text \<open>\<open>Inf True\<close> is \<open>Infinity\<close>, \<open>Inf False\<close> is \<open>-Infinity\<close>.\<close>

text \<open>
  Rounding a real to an integer, ties to even; the binary exponent of a real, not below
  the exponent of the subnormal numbers; the distance between neighbouring doubles at a
  real; and the double nearest to a real, which is an infinity from \<open>2 ^ 1024\<close> on.
\<close>

definition rne :: "real \<Rightarrow> int" where
  "rne q = (let f = \<lfloor>q\<rfloor>; d = q - of_int f
            in if d < 1 / 2 then f else if 1 / 2 < d then f + 1
               else if even f then f else f + 1)"

definition expo :: "real \<Rightarrow> int" where
  "expo x = max \<lfloor>log 2 \<bar>x\<bar>\<rfloor> (- 1022)"

definition ulp :: "real \<Rightarrow> real" where
  "ulp x = 2 powi (expo x - 52)"

definition round64 :: "real \<Rightarrow> jsnum" where
  "round64 x =
     (if x = 0 then Num 0
      else let r = of_int (rne (x / ulp x)) * ulp x
           in if 2 ^ 1024 \<le> \<bar>r\<bar> then Inf (0 < x) else Num r)"

fun js_add :: "jsnum \<Rightarrow> jsnum \<Rightarrow> jsnum" where
  "js_add (Num a) (Num b) = round64 (a + b)"
| "js_add NaN _ = NaN"
| "js_add _ NaN = NaN"
| "js_add (Inf s) (Inf t) = (if s = t then Inf s else NaN)"
| "js_add (Inf s) (Num b) = Inf s"
| "js_add (Num a) (Inf t) = Inf t"

fun js_mul :: "jsnum \<Rightarrow> jsnum \<Rightarrow> jsnum" where
  "js_mul (Num a) (Num b) = round64 (a * b)"
| "js_mul NaN _ = NaN"
| "js_mul _ NaN = NaN"
| "js_mul (Inf s) (Inf t) = Inf (s = t)"
| "js_mul (Inf s) (Num b) = (if b = 0 then NaN else Inf (s = (0 < b)))"
| "js_mul (Num a) (Inf t) = (if a = 0 then NaN else Inf ((0 < a) = t))"

fun js_div :: "jsnum \<Rightarrow> jsnum \<Rightarrow> jsnum" where
  "js_div (Num a) (Num b) =
     (if b = 0 then (if a = 0 then NaN else Inf (0 < a)) else round64 (a / b))"
| "js_div NaN _ = NaN"
| "js_div _ NaN = NaN"
| "js_div (Inf s) (Inf t) = NaN"
| "js_div (Inf s) (Num b) = Inf (s = (0 \<le> b))"
| "js_div (Num a) (Inf t) = Num 0"

fun js_sqrt :: "jsnum \<Rightarrow> jsnum" where
  "js_sqrt (Num a) = (if a < 0 then NaN else round64 (sqrt a))"
| "js_sqrt (Inf s) = (if s then Inf True else NaN)"
| "js_sqrt NaN = NaN"

text \<open>\<open>x > y\<close>: every comparison with \<open>NaN\<close> is false.\<close>

fun js_gt :: "jsnum \<Rightarrow> jsnum \<Rightarrow> bool" where
  "js_gt (Num a) (Num b) = (b < a)"
| "js_gt NaN _ = False"
| "js_gt _ NaN = False"
| "js_gt (Inf s) (Inf t) = (s \<and> \<not> t)"
| "js_gt (Inf s) (Num b) = s"
| "js_gt (Num a) (Inf t) = (\<not> t)"

text \<open>\<open>x === 0\<close>.\<close>

fun js_is_zero :: "jsnum \<Rightarrow> bool" where
  "js_is_zero (Num a) = (a = 0)"
| "js_is_zero _ = False"

section \<open>cosineSimilarity\<close>

text \<open>
  \<^verbatim>\<open>for (let i = 0; i < embedding1.length; i++) { dotProduct += ...; norm1 += ...; norm2 += ... }\<close>
  The loop walks \<open>embedding1\<close>; the element of \<open>embedding2\<close> at the same index is
  \<open>undefined\<close> once \<open>embedding2\<close> is exhausted, and elements of \<open>embedding2\<close> beyond
  the length of \<open>embedding1\<close> are never read.
\<close>

fun cosine_loop :: "real list \<Rightarrow> real list \<Rightarrow> jsnum \<times> jsnum \<times> jsnum \<Rightarrow> jsnum \<times> jsnum \<times> jsnum" where
  "cosine_loop [] e2 acc = acc"
| "cosine_loop (a # e1) e2 (dotProduct, norm1, norm2) =
     (let b = (case e2 of [] \<Rightarrow> NaN | b # _ \<Rightarrow> Num b)
      in cosine_loop e1 (tl e2)
           (js_add dotProduct (js_mul (Num a) b),
            js_add norm1 (js_mul (Num a) (Num a)),
            js_add norm2 (js_mul b b)))"

definition cosineSimilarity :: "real list \<Rightarrow> real list \<Rightarrow> jsnum" where
  "cosineSimilarity embedding1 embedding2 =
     (case cosine_loop embedding1 embedding2 (Num 0, Num 0, Num 0) of
        (dotProduct, n1, n2) \<Rightarrow>
          (let norm1 = js_sqrt n1; norm2 = js_sqrt n2
           in if js_is_zero norm1 \<or> js_is_zero norm2 then Num 0
              else js_div dotProduct (js_mul norm1 norm2)))"

text \<open>
  The quantities the claims speak about, as the loop computes them: the sum of the
  squares of a vector and the sum of the products of two vectors, accumulated from left
  to right in doubles, and the norm, the rounded square root of the former. The last two
  predicates describe the finite values a double and a norm can take: zero or at least
  the smallest positive double, and zero or at least its square root.
\<close>

fun sum_squares :: "real list \<Rightarrow> jsnum \<Rightarrow> jsnum" where
  "sum_squares [] acc = acc"
| "sum_squares (a # e) acc = sum_squares e (js_add acc (js_mul (Num a) (Num a)))"

fun sum_products :: "real list \<Rightarrow> real list \<Rightarrow> jsnum \<Rightarrow> jsnum" where
  "sum_products (a # e1) (b # e2) acc = sum_products e1 e2 (js_add acc (js_mul (Num a) (Num b)))"
| "sum_products _ _ acc = acc"

definition computed_norm :: "real list \<Rightarrow> jsnum" where
  "computed_norm e = js_sqrt (sum_squares e (Num 0))"

definition double_like :: "jsnum \<Rightarrow> bool" where
  "double_like v = (case v of Num r \<Rightarrow> r = 0 \<or> 2 powi (- 1074) \<le> \<bar>r\<bar> | _ \<Rightarrow> True)"

definition norm_like :: "jsnum \<Rightarrow> bool" where
  "norm_like v = (case v of Num r \<Rightarrow> r = 0 \<or> 2 powi (- 537) \<le> r | _ \<Rightarrow> True)"

section \<open>The data of the face cluster store\<close>

text \<open>
  A face group is the value stored in \<^verbatim>\<open>this.faceGroups\<close> under a group id:
  \<^verbatim>\<open>{ referenceEmbedding, images }\<close>. A detected face is \<^verbatim>\<open>{ embedding, box }\<close>,
  a group entry is \<^verbatim>\<open>{ groupId, similarity }\<close>, and the record written for an image
  is \<^verbatim>\<open>{ filename, faces, groups }\<close>.
\<close>

record face_group =
  referenceEmbedding :: "real list"
  images :: "string list"

record face_box =
  box_x :: real
  box_y :: real
  box_width :: real
  box_height :: real

record face =
  embedding :: "real list"
  box :: face_box

record group_entry =
  groupId :: string
  similarity :: jsnum

record image_record =
  filename :: string
  faces :: "face list"
  groups :: "group_entry list"

text \<open>
  A JavaScript \<^verbatim>\<open>Map\<close> with string keys iterates in insertion order: it is a list of
  key-value pairs. \<^verbatim>\<open>set\<close> replaces the value of a key in place and appends a new key
  at the end.
\<close>

type_synonym 'v jsmap = "(string \<times> 'v) list"

definition jsmap_get :: "'v jsmap \<Rightarrow> string \<Rightarrow> 'v option" where
  "jsmap_get m k = map_of m k"

definition jsmap_has :: "'v jsmap \<Rightarrow> string \<Rightarrow> bool" where
  "jsmap_has m k = (map_of m k \<noteq> None)"

fun jsmap_set :: "'v jsmap \<Rightarrow> string \<Rightarrow> 'v \<Rightarrow> 'v jsmap" where
  "jsmap_set [] k v = [(k, v)]"
| "jsmap_set ((k', v') # m) k v =
     (if k' = k then (k, v) # m else (k', v') # jsmap_set m k v)"

text \<open>
  The directory \<^verbatim>\<open>facesDir\<close> holds one JSON file per processed image and the file
  \<^verbatim>\<open>face-groups.json\<close>; a file is modelled by the value that \<^verbatim>\<open>JSON.parse\<close> reads
  back from it. Writing a file always succeeds in this model.
\<close>

datatype json_file = RecordFile image_record | GroupsFile "face_group jsmap"

datatype error = Error (message: string)

text \<open>
  The state of a service instance: the map \<^verbatim>\<open>this.faceGroups\<close> and the files of
  \<^verbatim>\<open>facesDir\<close> by name. Three fields only observe the run: the image paths handed to
  \<^verbatim>\<open>detectFaces\<close> so far, the number of group ids generated so far, and the number of
  runs of \<^verbatim>\<open>saveFaceGroups\<close>. (\<^verbatim>\<open>this.faceEmbeddings\<close> is never read or written.)
\<close>

record store =
  faceGroups :: "face_group jsmap"
  facesDir :: "string \<rightharpoonup> json_file"
  detectCalls :: "string list"
  idsDrawn :: nat
  groupSaves :: nat

text \<open>
  What the service takes from outside, as parameters: \<^verbatim>\<open>path.join(this.basePath, filename)\<close>,
  \<^verbatim>\<open>fs.existsSync\<close> on image paths, the result of \<^verbatim>\<open>detectFaces\<close> on an image path
  (\<open>Inl\<close> the message of the error it throws, \<open>Inr\<close> the detected faces), and the
  readings of the clock and of the random generator: the \<open>n\<close>-th generated id is built
  from the texts of \<^verbatim>\<open>Date.now()\<close> and of \<^verbatim>\<open>Math.random().toString(36).substr(2, 9)\<close>
  at that moment.
\<close>

record env =
  joinBase :: "string \<Rightarrow> string"
  existsSync :: "string \<Rightarrow> bool"
  detectFaces :: "string \<Rightarrow> string + face list"
  idSource :: "nat \<Rightarrow> string \<times> string"

section \<open>matchFace\<close>

text \<open>
  \<^verbatim>\<open>for (const [faceId, groupData] of this.faceGroups.entries())\<close> with the pair
  \<^verbatim>\<open>(bestMatch, bestSimilarity)\<close> as loop state. The result tests \<^verbatim>\<open>bestMatch\<close> for
  truthiness: \<^verbatim>\<open>null\<close> and the empty string both give \<^verbatim>\<open>null\<close>.
\<close>

fun matchFace_loop ::
  "real list \<Rightarrow> face_group jsmap \<Rightarrow> string option \<times> jsnum \<Rightarrow> string option \<times> jsnum" where
  "matchFace_loop e [] best = best"
| "matchFace_loop e ((faceId, groupData) # rest) (bestMatch, bestSimilarity) =
     (let sim = cosineSimilarity e (referenceEmbedding groupData)
      in if js_gt sim bestSimilarity
         then matchFace_loop e rest (Some faceId, sim)
         else matchFace_loop e rest (bestMatch, bestSimilarity))"

definition matchFace :: "real list \<Rightarrow> jsnum \<Rightarrow> face_group jsmap \<Rightarrow> (string \<times> jsnum) option" where
  "matchFace e threshold fg =
     (case matchFace_loop e fg (None, threshold) of
        (None, _) \<Rightarrow> None
      | (Some faceId, bestSimilarity) \<Rightarrow>
          if faceId = [] then None else Some (faceId, bestSimilarity))"

text \<open>
  The default threshold \<^verbatim>\<open>0.6\<close> is the double nearest to \<open>6 / 10\<close>, just below it. No
  double lies between the two, so a double exceeds the one exactly when it exceeds the
  other, and the comparison is written with \<open>6 / 10\<close>.
\<close>

definition default_threshold :: jsnum where
  "default_threshold = Num (6 / 10)"

section \<open>processImage\<close>

definition faceDataPath :: "string \<Rightarrow> string" where
  "faceDataPath fname = map (\<lambda>c. if c = CHR ''/'' then CHR ''_'' else c) fname @ ''.json''"

definition groupsFile :: string where
  "groupsFile = ''face-groups.json''"

definition newGroupId :: "string \<times> string \<Rightarrow> string" where
  "newGroupId reading = ''face_'' @ fst reading @ ''_'' @ snd reading"

text \<open>
  The body of \<^verbatim>\<open>for (const face of detectionResult.faces)\<close>: the entry pushed onto
  \<^verbatim>\<open>groups\<close> and the state after it. \<^verbatim>\<open>this.faceGroups.get(groupId)\<close> of an absent key
  is \<^verbatim>\<open>undefined\<close>, and reading \<^verbatim>\<open>.images\<close> of it throws.
\<close>

definition processFace :: "env \<Rightarrow> string \<Rightarrow> face \<Rightarrow> store \<Rightarrow> (error + group_entry) \<times> store" where
  "processFace env fname fc st =
     (case matchFace (embedding fc) default_threshold (faceGroups st) of
        Some (gid, sim) \<Rightarrow>
          (let fg1 = (if \<not> jsmap_has (faceGroups st) gid
                      then jsmap_set (faceGroups st) gid
                             \<lparr>referenceEmbedding = embedding fc, images = []\<rparr>
                      else faceGroups st)
           in case jsmap_get fg1 gid of
                None \<Rightarrow>
                  (Inl (Error ''Cannot read properties of undefined (reading 'images')''),
                   st\<lparr>faceGroups := fg1\<rparr>)
              | Some grp \<Rightarrow>
                  (let fg2 = (if fname \<in> set (images grp) then fg1
                              else jsmap_set fg1 gid (grp\<lparr>images := images grp @ [fname]\<rparr>))
                   in (Inr \<lparr>groupId = gid, similarity = sim\<rparr>, st\<lparr>faceGroups := fg2\<rparr>)))
      | None \<Rightarrow>
          (let gid = newGroupId (idSource env (idsDrawn st))
           in (Inr \<lparr>groupId = gid, similarity = Num 1\<rparr>,
               st\<lparr>faceGroups := jsmap_set (faceGroups st) gid
                                   \<lparr>referenceEmbedding = embedding fc, images = [fname]\<rparr>,
                  idsDrawn := Suc (idsDrawn st)\<rparr>)))"

fun processFaces ::
  "env \<Rightarrow> string \<Rightarrow> face list \<Rightarrow> store \<Rightarrow> group_entry list \<Rightarrow> (error + group_entry list) \<times> store" where
  "processFaces env fname [] st gs = (Inr gs, st)"
| "processFaces env fname (fc # fcs) st gs =
     (case processFace env fname fc st of
        (Inl e, st') \<Rightarrow> (Inl e, st')
      | (Inr g, st') \<Rightarrow> processFaces env fname fcs st' (gs @ [g]))"

definition saveFaceGroups :: "store \<Rightarrow> store" where
  "saveFaceGroups st =
     st\<lparr>facesDir := (facesDir st)(groupsFile \<mapsto> GroupsFile (faceGroups st)),
        groupSaves := Suc (groupSaves st)\<rparr>"



definition processImage :: "env \<Rightarrow> string \<Rightarrow> store \<Rightarrow> (error + json_file) \<times> store" where
  "processImage env fname st =
     (let imagePath = joinBase env fname
      in if \<not> existsSync env imagePath
         then (Inl (Error (''Image not found: '' @ imagePath)), st)
         else
           (case facesDir st (faceDataPath fname) of
              Some cached \<Rightarrow> (Inr cached, st)
            | None \<Rightarrow>
                (let st1 = st\<lparr>detectCalls := detectCalls st @ [imagePath]\<rparr>
                 in case detectFaces env imagePath of
                      Inl msg \<Rightarrow> (Inl (Error msg), st1)
                    | Inr detected \<Rightarrow>
                        if length detected = 0
                        then
                          (let result = \<lparr>filename = fname, faces = [], groups = []\<rparr>
                           in (Inr (RecordFile result),
                               st1\<lparr>facesDir := (facesDir st1)(faceDataPath fname \<mapsto> RecordFile result)\<rparr>))
                        else
                          (case processFaces env fname detected st1 [] of
                             (Inl e, st2) \<Rightarrow> (Inl e, st2)
                           | (Inr gs, st2) \<Rightarrow>
                               (let result =
                                      \<lparr>filename = fname,
                                       faces = map (\<lambda>f. \<lparr>embedding = embedding f, box = box f\<rparr>) detected,
                                       groups = gs\<rparr>;
                                    st3 = st2\<lparr>facesDir :=
                                                (facesDir st2)(faceDataPath fname \<mapsto> RecordFile result)\<rparr>
                                in (Inr (RecordFile result), saveFaceGroups st3))))))"

section \<open>getFaceGroups, getGroupImages\<close>

definition getFaceGroups :: "store \<Rightarrow> (string \<times> nat \<times> string list) list" where
  "getFaceGroups st = map (\<lambda>(gid, groupData). (gid, length (images groupData), images groupData)) (faceGroups st)"

definition getGroupImages :: "store \<Rightarrow> string \<Rightarrow> string list" where
  "getGroupImages st gid = (case jsmap_get (faceGroups st) gid of Some grp \<Rightarrow> images grp | None \<Rightarrow> [])"

section \<open>processImages\<close>

text \<open>
  An entry of the returned array is the result of \<^verbatim>\<open>processImage\<close> or
  \<^verbatim>\<open>{ filename, error }\<close>. The progress callback is a parameter: \<open>None\<close> when the caller
  passes none, otherwise a function of \<^verbatim>\<open>(i + 1, total, filenames[i])\<close> that returns
  (\<open>None\<close>) or throws an error with a message (\<open>Some\<close>). The call is inside the
  \<^verbatim>\<open>try\<close> block, after the push of the result. The list of the calls made is returned
  beside the results.
\<close>

datatype batch_entry = Processed json_file | Failed string string

type_synonym progress_callback = "nat \<Rightarrow> nat \<Rightarrow> string \<Rightarrow> string option"

fun processImages_loop ::
  "env \<Rightarrow> progress_callback option \<Rightarrow> nat \<Rightarrow> nat \<Rightarrow> string list \<Rightarrow> store \<Rightarrow>
   batch_entry list \<Rightarrow> (nat \<times> nat \<times> string) list \<Rightarrow>
   batch_entry list \<times> (nat \<times> nat \<times> string) list \<times> store" where
  "processImages_loop env cb n i [] st results calls = (results, calls, st)"
| "processImages_loop env cb n i (fname # rest) st results calls =
     (case processImage env fname st of
        (Inl e, st') \<Rightarrow>
          processImages_loop env cb n (Suc i) rest st'
            (results @ [Failed fname (message e)]) calls
      | (Inr result, st') \<Rightarrow>
          (case cb of
             None \<Rightarrow>
               processImages_loop env cb n (Suc i) rest st'
                 (results @ [Processed result]) calls
           | Some progressCallback \<Rightarrow>
               (case progressCallback (i + 1) n fname of
                  None \<Rightarrow>
                    processImages_loop env cb n (Suc i) rest st'
                      (results @ [Processed result]) (calls @ [(i + 1, n, fname)])
                | Some msg \<Rightarrow>
                    processImages_loop env cb n (Suc i) rest st'
                      (results @ [Processed result] @ [Failed fname msg])
                      (calls @ [(i + 1, n, fname)]))))"

definition processImages ::
  "env \<Rightarrow> string list \<Rightarrow> progress_callback option \<Rightarrow> store \<Rightarrow>
   batch_entry list \<times> (nat \<times> nat \<times> string) list \<times> store" where
  "processImages env filenames cb st =
     processImages_loop env cb (length filenames) 0 filenames st [] []"

section \<open>Assigning an image to a group\<close>

text \<open>
  Written from the words of the specification, to compare the loop body of
  \<open>processImage\<close> with: a filename is added to a list of images if it is absent from it,
  and assigning a filename to the group with a given id changes the images of that group
  in this way and nothing else.
\<close>

definition add_image :: "string \<Rightarrow> string list \<Rightarrow> string list" where
  "add_image fname imgs = (if fname \<in> set imgs then imgs else imgs @ [fname])"

definition assign_to :: "string \<Rightarrow> string \<Rightarrow> face_group jsmap \<Rightarrow> face_group jsmap" where
  "assign_to gid fname fg =
     map (\<lambda>(k, v). if k = gid then (k, v\<lparr>images := add_image fname (images v)\<rparr>) else (k, v)) fg"

section \<open>The invariant of the face groups\<close>






section \<open>What a batch is expected to return\<close>

text \<open>
  Written from the words of the specification, to compare \<open>processImages\<close> with: the
  entries of a batch (one per filename, in order: the result of \<open>processImage\<close>, or the
  filename with the message of the error it threw, each filename processed in the state
  its predecessors left), the filenames whose processing succeeded, the progress calls
  \<^verbatim>\<open>(position + 1, total, filename)\<close> of these filenames, and a callback that returns
  normally on every call.
\<close>

fun batch_results :: "env \<Rightarrow> string list \<Rightarrow> store \<Rightarrow> batch_entry list" where
  "batch_results env [] st = []"
| "batch_results env (fname # rest) st =
     (case processImage env fname st of
        (Inl e, st') \<Rightarrow> Failed fname (message e) # batch_results env rest st'
      | (Inr result, st') \<Rightarrow> Processed result # batch_results env rest st')"

fun succeeded :: "env \<Rightarrow> string list \<Rightarrow> store \<Rightarrow> bool list" where
  "succeeded env [] st = []"
| "succeeded env (fname # rest) st =
     (case processImage env fname st of
        (Inl e, st') \<Rightarrow> False # succeeded env rest st'
      | (Inr result, st') \<Rightarrow> True # succeeded env rest st')"

definition callback_returns :: "progress_callback option \<Rightarrow> bool" where
  "callback_returns cb = (case cb of None \<Rightarrow> True | Some c \<Rightarrow> \<forall>i n fname. c i n fname = None)"

definition expected_calls :: "env \<Rightarrow> string list \<Rightarrow> store \<Rightarrow> (nat \<times> nat \<times> string) list" where
  "expected_calls env filenames st =
     map (\<lambda>j. (j + 1, length filenames, filenames ! j))
       (filter (\<lambda>j. succeeded env filenames st ! j) [0..<length filenames])"

section \<open>Example inputs\<close>

text \<open>
  A base path with every image present but \<^verbatim>\<open>missing.jpg\<close>, a detector that finds no
  face in \<^verbatim>\<open>empty.jpg\<close>, fails on \<^verbatim>\<open>broken.jpg\<close> and finds one face elsewhere, and a
  store with nothing in it.
\<close>

definition example_face :: face where
  "example_face = \<lparr>embedding = [1, 0], box = \<lparr>box_x = 10, box_y = 20, box_width = 30, box_height = 40\<rparr>\<rparr>"

definition example_env :: env where
  "example_env =
     \<lparr>joinBase = (\<lambda>f. ''/media/'' @ f),
      existsSync = (\<lambda>p. p \<noteq> ''/media/missing.jpg''),
      detectFaces = (\<lambda>p. if p = ''/media/empty.jpg'' then Inr []
                          else if p = ''/media/broken.jpg'' then Inl ''Input buffer contains unsupported image format''
                          else Inr [example_face]),
      idSource = (\<lambda>n. (''1700000000000'', replicate (Suc n) CHR ''a''))\<rparr>"

definition empty_store :: store where
  "empty_store = \<lparr>faceGroups = [], facesDir = Map.empty, detectCalls = [], idsDrawn = 0, groupSaves = 0\<rparr>"

definition cached_store :: store where
  "cached_store =
     empty_store\<lparr>facesDir := [''a.jpg.json'' \<mapsto> RecordFile \<lparr>filename = ''a.jpg'', faces = [], groups = []\<rparr>]\<rparr>"

text \<open>
  A store with one group, entered for \<^verbatim>\<open>x.jpg\<close>; a face orthogonal to the reference of
  that group; and readings of the clock and the random generator that repeat the ones
  the id of that group was built from.
\<close>

definition matched_store :: store where
  "matched_store =
     empty_store\<lparr>faceGroups := [(''face_1700000000000_k3j9x2m1q'',
                                  \<lparr>referenceEmbedding = [1, 0], images = [''x.jpg'']\<rparr>)],
                 idsDrawn := 1\<rparr>"

definition other_face :: face where
  "other_face = \<lparr>embedding = [0, 1], box = \<lparr>box_x = 5, box_y = 6, box_width = 7, box_height = 8\<rparr>\<rparr>"

definition colliding_env :: env where
  "colliding_env =
     example_env\<lparr>detectFaces := (\<lambda>p. Inr [other_face]),
                 idSource := (\<lambda>n. (''1700000000000'', ''k3j9x2m1q''))\<rparr>"

section \<open>Properties of the arithmetic\<close>

lemmas run_defs =
  processImages_def processImage_def example_env_def empty_store_def Let_def faceDataPath_def
  processFace_def matchFace_def default_threshold_def newGroupId_def example_face_def
  saveFaceGroups_def groupsFile_def


lemma rne_nearest:
  assumes "of_int n - 1 / 2 < q" and "q < of_int n + 1 / 2"
  shows "rne q = n"
proof (cases "of_int n \<le> q")
  case True
  then have "\<lfloor>q\<rfloor> = n" using assms(2) by (intro floor_unique) auto
  then show ?thesis using assms(2) by (simp add: rne_def Let_def)
next
  case False
  then have "\<lfloor>q\<rfloor> = n - 1" using assms(1) by (intro floor_unique) auto
  then show ?thesis using assms(1) by (simp add: rne_def Let_def)
qed

lemma rne_ge_floor: "\<lfloor>q\<rfloor> \<le> rne q"
  by (simp add: rne_def Let_def)

lemma rne_ge_int: "of_int m \<le> q \<Longrightarrow> m \<le> rne q"
  using rne_ge_floor [of q] by (meson le_floor_iff order_trans)

lemma powi_powr: "(2::real) powi k = 2 powr of_int k"
  by (simp add: powr_real_of_int')

lemma powi_pos: "0 < (2::real) powi k"
  by (simp add: powi_powr)

lemma floor_log2_eq:
  assumes "2 powi k \<le> x" and "x < 2 powi (k + 1)"
  shows "\<lfloor>log 2 x\<rfloor> = k"
proof -
  have pos: "0 < x" using assms(1) powi_pos [of k] by linarith
  have "of_int k \<le> log 2 x"
    using assms(1) pos by (simp add: le_log_iff powi_powr)
  moreover have "log 2 x < of_int k + 1"
    using assms(2) pos by (simp add: log_less_iff powi_powr)
  ultimately show ?thesis by (intro floor_unique) auto
qed

lemma pow2_floor_log2: "0 < x \<Longrightarrow> 2 powi \<lfloor>log 2 x\<rfloor> \<le> x"
  unfolding powi_powr using le_log_iff [of 2 x "of_int \<lfloor>log 2 x\<rfloor>"] by simp

lemma round64_eval:
  assumes u: "u = 2 powi (k - 52)"
      and k: "- 1022 \<le> k"
      and lo: "2 powi k \<le> \<bar>x\<bar>" and hi: "\<bar>x\<bar> < 2 powi (k + 1)"
      and n: "of_int n - 1 / 2 < x / u" "x / u < of_int n + 1 / 2"
      and fin: "\<bar>of_int n * u\<bar> < 2 ^ 1024"
  shows "round64 x = Num (of_int n * u)"
proof -
  have nz: "x \<noteq> 0" using lo powi_pos [of k] by linarith
  have "\<lfloor>log 2 \<bar>x\<bar>\<rfloor> = k" using lo hi by (rule floor_log2_eq)
  then have "expo x = k" using k by (simp add: expo_def)
  then have ulp: "ulp x = u" by (simp add: ulp_def u)
  have "rne (x / u) = n" using n by (rule rne_nearest)
  then show ?thesis using nz fin by (simp add: round64_def ulp Let_def)
qed

lemma round64_0 [simp]: "round64 0 = Num 0"
  by (simp add: round64_def)

lemma round64_1 [simp]: "round64 1 = Num 1"
  using round64_eval [of "1 / 2 ^ 52" 0 1 "2 ^ 52"] by simp

lemma round64_2 [simp]: "round64 2 = Num 2"
  using round64_eval [of "1 / 2 ^ 51" 1 2 "2 ^ 52"] by simp

lemma round64_sqrt_2: "round64 (sqrt 2) = Num (6369051672525773 / 2 ^ 52)"
proof -
  have lo: "1 \<le> sqrt 2" by simp
  have hi: "sqrt 2 < 2" by (rule real_less_lsqrt) simp_all
  have a: "6369051672525773 - 1 / 2 < sqrt 2 * 2 ^ 52"
  proof -
    have "((6369051672525773 - 1 / 2) / 2 ^ 52)\<^sup>2 < (2::real)" by (simp add: power2_eq_square)
    then have "(6369051672525773 - 1 / 2) / 2 ^ 52 < sqrt 2" by (rule real_less_rsqrt)
    then show ?thesis by (simp add: field_simps)
  qed
  have b: "sqrt 2 * 2 ^ 52 < 6369051672525773 + 1 / 2"
  proof -
    have "(2::real) < ((6369051672525773 + 1 / 2) / 2 ^ 52)\<^sup>2" by (simp add: power2_eq_square)
    then have "sqrt 2 < (6369051672525773 + 1 / 2) / 2 ^ 52" by (intro real_less_lsqrt) simp_all
    then show ?thesis by (simp add: field_simps)
  qed
  show ?thesis
    using round64_eval [of "1 / 2 ^ 52" 0 "sqrt 2" 6369051672525773] lo hi a b by simp
qed


lemma rne_0 [simp]: "rne 0 = 0"
  by (simp add: rne_def)

lemma round64_cases:
  "round64 x = Inf (0 < x) \<or>
   round64 x = Num (of_int (rne (x / ulp x)) * ulp x)"
  by (auto simp: round64_def Let_def)

lemma round64_not_NaN [simp]: "round64 x \<noteq> NaN"
  by (auto simp: round64_def Let_def)

lemma ulp_pos: "0 < ulp x"
  by (simp add: ulp_def powi_pos)

lemma ulp_ge: "2 powi (- 1074) \<le> ulp x"
proof -
  have "- 1074 \<le> expo x - 52" by (simp add: expo_def)
  then show ?thesis unfolding ulp_def by (intro power_int_increasing) simp_all
qed

lemma round64_double_like: "double_like (round64 x)"
proof -
  consider "round64 x = Inf (0 < x)"
    | "round64 x = Num (of_int (rne (x / ulp x)) * ulp x)"
    using round64_cases by blast
  then show ?thesis
  proof cases
    case 1
    then show ?thesis by (simp add: double_like_def)
  next
    case 2
    let ?n = "rne (x / ulp x)"
    show ?thesis
    proof (cases "?n = 0")
      case True
      then show ?thesis using 2 by (simp add: double_like_def)
    next
      case False
      then have "1 \<le> \<bar>?n\<bar>" by simp
      then have "(1::real) \<le> of_int \<bar>?n\<bar>" by (simp only: of_int_1_le_iff)
      then have "1 \<le> \<bar>of_int ?n :: real\<bar>" by simp
      then have c: "ulp x \<le> \<bar>of_int ?n\<bar> * ulp x"
        using ulp_pos [of x] by (simp add: mult_le_cancel_right1)
      have b: "\<bar>of_int ?n * ulp x\<bar> = \<bar>of_int ?n\<bar> * ulp x"
        using ulp_pos [of x] by (simp add: abs_mult)
      have "2 powi (- 1074) \<le> \<bar>of_int ?n * ulp x\<bar>"
        unfolding b using ulp_ge [of x] c by (rule order_trans)
      then show ?thesis
        unfolding double_like_def 2 jsnum.case by (rule disjI2)
    qed
  qed
qed

lemma round64_lower:
  assumes lo: "2 powi k \<le> x" and k: "- 1074 \<le> k" and r: "round64 x = Num r"
  shows "2 powi k \<le> r"
proof -
  have pos: "0 < x" using lo powi_pos [of k] by linarith
  then have nz: "x \<noteq> 0" by simp
  have r_eq: "r = of_int (rne (x / ulp x)) * ulp x"
    using r nz by (auto simp: round64_def Let_def split: if_splits)
  have "of_int k \<le> log 2 x"
    using lo pos by (simp add: le_log_iff powi_powr)
  then have kf: "k \<le> \<lfloor>log 2 x\<rfloor>" by (simp add: le_floor_iff)
  have abs: "\<bar>x\<bar> = x" using pos by simp
  show ?thesis
  proof (cases "- 1022 \<le> \<lfloor>log 2 x\<rfloor>")
    case True
    let ?e = "\<lfloor>log 2 x\<rfloor>"
    have e: "expo x = ?e" using True by (simp add: expo_def abs)
    have u: "ulp x = 2 powi (?e - 52)" by (simp add: ulp_def e)
    have "2 powi ?e \<le> x" using pos by (rule pow2_floor_log2)
    moreover have "(2::real) powi ?e = of_int (2 ^ 52) * ulp x"
      unfolding u using power_int_add [of "2::real" 52 "?e - 52"] by simp
    ultimately have "of_int (2 ^ 52) \<le> x / ulp x"
      using ulp_pos [of x] by (simp add: pos_le_divide_eq)
    then have "2 ^ 52 \<le> rne (x / ulp x)" by (rule rne_ge_int)
    then have "of_int (2 ^ 52) * ulp x \<le> r"
      unfolding r_eq using ulp_pos [of x] by (simp add: mult_le_cancel_right)
    moreover have "(2::real) powi k \<le> 2 powi ?e"
      using kf by (intro power_int_increasing) simp_all
    ultimately show ?thesis
      using \<open>(2::real) powi ?e = of_int (2 ^ 52) * ulp x\<close> by linarith
  next
    case False
    then have e: "expo x = - 1022" by (simp add: expo_def abs)
    have u: "ulp x = 2 powi (- 1074)" by (simp add: ulp_def e)
    let ?m = "2 ^ nat (k + 1074) :: int"
    have m: "of_int ?m = (2::real) powi (k + 1074)"
      using k by (simp add: power_int_nonneg_exp)
    have km: "(2::real) powi k = of_int ?m * ulp x"
      unfolding m u using power_int_add [of "2::real" "k + 1074" "- 1074"] by simp
    then have "of_int ?m \<le> x / ulp x"
      using lo ulp_pos [of x] by (simp add: pos_le_divide_eq)
    then have "?m \<le> rne (x / ulp x)" by (rule rne_ge_int)
    then have "of_int ?m * ulp x \<le> r"
      unfolding r_eq using ulp_pos [of x]
      by (simp only: mult_le_cancel_right of_int_le_iff) simp
    then show ?thesis using km by simp
  qed
qed


lemma round64_3 [simp]: "round64 3 = Num 3"
  using round64_eval [of "1 / 2 ^ 51" 1 3 "3 * 2 ^ 51"] by simp

lemma round64_6 [simp]: "round64 6 = Num 6"
  using round64_eval [of "1 / 2 ^ 50" 2 6 "6 * 2 ^ 50"] by simp

lemma round64_9 [simp]: "round64 9 = Num 9"
  using round64_eval [of "1 / 2 ^ 49" 3 9 "9 * 2 ^ 49"] by simp

lemma round64_18 [simp]: "round64 18 = Num 18"
  using round64_eval [of "1 / 2 ^ 48" 4 18 "18 * 2 ^ 48"] by simp





section \<open>Properties of cosineSimilarity\<close>


lemma double_like_js_add: "double_like (js_add a b)"
  by (cases a; cases b) (simp_all add: round64_double_like, simp_all add: double_like_def)

lemma double_like_0: "double_like (Num 0)"
  by (simp add: double_like_def)

lemma double_like_sum_squares: "double_like acc \<Longrightarrow> double_like (sum_squares e acc)"
  by (induction e arbitrary: acc) (simp_all add: double_like_js_add)

lemma cosine_loop_parts:
  "length e1 = length e2 \<Longrightarrow>
   cosine_loop e1 e2 (d, m, n) = (sum_products e1 e2 d, sum_squares e1 m, sum_squares e2 n)"
proof (induction e1 arbitrary: e2 d m n)
  case Nil
  then show ?case by simp
next
  case (Cons a e1)
  then obtain b e2' where e2: "e2 = b # e2'" and len: "length e1 = length e2'"
    by (cases e2) auto
  show ?case by (simp add: e2 Cons.IH [OF len])
qed


lemma sqrt_tiny: "sqrt (2 powi (- 1074)) = 2 powi (- 537)"
proof -
  have "(2::real) powi (- 537) * 2 powi (- 537) = 2 powi (- 1074)"
    using power_int_add [of "2::real" "- 537" "- 537"] by simp
  then have "((2::real) powi (- 537))\<^sup>2 = 2 powi (- 1074)"
    by (simp only: power2_eq_square)
  moreover have "0 \<le> (2::real) powi (- 537)"
    using powi_pos [of "- 537"] by (rule less_imp_le)
  ultimately show ?thesis
    by (metis real_sqrt_abs2 abs_of_nonneg power2_eq_square)
qed

lemma norm_like_js_sqrt:
  assumes "double_like v"
  shows "norm_like (js_sqrt v)"
proof (cases v)
  case (Num a)
  show ?thesis
  proof (cases "a \<le> 0")
    case True
    then show ?thesis using Num by (cases "a = 0") (simp_all add: norm_like_def)
  next
    case False
    then have "2 powi (- 1074) \<le> a"
      using assms Num unfolding double_like_def jsnum.case by auto
    then have lo: "2 powi (- 537) \<le> sqrt a"
      unfolding sqrt_tiny [symmetric] by (simp only: real_sqrt_le_iff)
    have js: "js_sqrt v = round64 (sqrt a)" using Num False by simp
    consider "round64 (sqrt a) = Inf (0 < sqrt a)" | r where "round64 (sqrt a) = Num r"
      using round64_cases by blast
    then show ?thesis
    proof cases
      case 1
      then show ?thesis by (simp add: js norm_like_def)
    next
      case 2
      have "2 powi (- 537) \<le> r"
        using lo _ 2 by (rule round64_lower) simp
      then show ?thesis
        unfolding js 2 norm_like_def jsnum.case by (rule disjI2)
    qed
  qed
next
  case (Inf s)
  then show ?thesis by (simp add: norm_like_def)
next
  case NaN
  then show ?thesis by (simp add: norm_like_def)
qed

lemma product_of_norms_nonzero:
  assumes "norm_like a" and "norm_like b" and "\<not> js_is_zero a" and "\<not> js_is_zero b"
  shows "\<not> js_is_zero (js_mul a b)"
proof (cases a)
  case (Num x)
  note a = this
  have x: "2 powi (- 537) \<le> x"
    using assms(1,3) unfolding a norm_like_def jsnum.case by auto
  show ?thesis
  proof (cases b)
    case (Num y)
    have y: "2 powi (- 537) \<le> y"
      using assms(2,4) unfolding Num norm_like_def jsnum.case by auto
    have "(2::real) powi (- 537) * 2 powi (- 537) \<le> x * y"
      using x y powi_pos [of "- 537"] by (intro mult_mono) (simp_all only: less_imp_le)
    moreover have "(2::real) powi (- 537) * 2 powi (- 537) = 2 powi (- 1074)"
      using power_int_add [of "2::real" "- 537" "- 537"] by simp
    ultimately have lo: "2 powi (- 1074) \<le> x * y" by (simp only:)
    consider "round64 (x * y) = Inf (0 < x * y)" | r where "round64 (x * y) = Num r"
      using round64_cases by blast
    then show ?thesis
    proof cases
      case 1
      then show ?thesis by (simp add: a Num)
    next
      case 2
      have "2 powi (- 1074) \<le> r"
        using lo _ 2 by (rule round64_lower) simp
      then have "r \<noteq> 0" using powi_pos [of "- 1074"] by linarith
      then show ?thesis by (simp add: a Num 2)
    qed
  next
    case (Inf t)
    have "x \<noteq> 0" using x powi_pos [of "- 537"] by linarith
    then show ?thesis by (simp add: a Inf)
  next
    case NaN
    then show ?thesis by (simp add: a)
  qed
next
  case (Inf s)
  show ?thesis using assms(4) by (cases b) (simp_all add: Inf)
next
  case NaN
  then show ?thesis by simp
qed

lemma norm_like_computed_norm: "norm_like (computed_norm e)"
  unfolding computed_norm_def
  by (intro norm_like_js_sqrt double_like_sum_squares double_like_0)

lemma cosineSimilarity_parts:
  assumes "length a = length b"
  shows "cosineSimilarity a b =
           (if js_is_zero (computed_norm a) \<or> js_is_zero (computed_norm b) then Num 0
            else js_div (sum_products a b (Num 0)) (js_mul (computed_norm a) (computed_norm b)))"
  by (simp add: cosineSimilarity_def cosine_loop_parts [OF assms] computed_norm_def Let_def)

lemma sum_squares_zeros: "\<forall>x\<in>set e. x = 0 \<Longrightarrow> sum_squares e (Num 0) = Num 0"
  by (induction e) simp_all



text \<open>
  Overflow and underflow: a result of magnitude \<open>2 ^ 1024\<close> or more is an infinity, a
  positive result below half the smallest positive double is zero. So the similarity of
  \<^verbatim>\<open>[2 ^ 600]\<close> with itself is \<open>NaN\<close>, and that of \<^verbatim>\<open>[2 ^ -600]\<close> with itself is 0.
\<close>

lemma round64_overflow:
  assumes "2 ^ 1024 \<le> x"
  shows "round64 x = Inf True"
proof -
  have pos: "0 < x" using assms by (smt (verit) zero_less_power)
  have lo: "2 powi 1024 \<le> x" using assms by simp
  consider "round64 x = Inf (0 < x)" | "round64 x = Num (of_int (rne (x / ulp x)) * ulp x)"
    using round64_cases by blast
  then show ?thesis
  proof cases
    case 1
    then show ?thesis using pos by simp
  next
    case 2
    have "2 powi 1024 \<le> of_int (rne (x / ulp x)) * ulp x"
      using lo _ 2 by (rule round64_lower) simp
    then have "2 ^ 1024 \<le> \<bar>of_int (rne (x / ulp x)) * ulp x\<bar>" by simp
    then show ?thesis using pos by (simp add: round64_def Let_def)
  qed
qed

lemma round64_underflow:
  assumes "0 < x" and "x < 2 powi (- 1075)"
  shows "round64 x = Num 0"
proof -
  have a: "x < 2 powr of_int (- 1075)"
    using assms(2) by (simp only: powi_powr)
  have "(1::real) < 2" by simp
  then have "log 2 x < of_int (- 1075)"
    using a assms(1) log_less_iff [of 2 x "of_int (- 1075)"] by blast
  then have "\<lfloor>log 2 x\<rfloor> < - 1075" by (simp only: floor_less_iff)
  then have "\<lfloor>log 2 x\<rfloor> < - 1022" by linarith
  then have e: "expo x = - 1022" using assms(1) by (simp add: expo_def)
  have u: "ulp x = 2 powi (- 1074)" by (simp add: ulp_def e)
  have "x / 2 powi (- 1074) < 2 powi (- 1075) / 2 powi (- 1074)"
    using assms(2) powi_pos [of "- 1074"] by (simp only: divide_strict_right_mono)
  also have "\<dots> = 1 / 2"
    using power_int_diff [of "2::real" "- 1075" "- 1074"] by simp
  finally have q: "x / 2 powi (- 1074) < 1 / 2" .
  have "0 < x / 2 powi (- 1074)"
    using assms(1) powi_pos [of "- 1074"] by (simp only: zero_less_divide_iff) simp
  then have "rne (x / 2 powi (- 1074)) = 0"
    using q by (intro rne_nearest) simp_all
  then show ?thesis using assms(1) by (simp add: round64_def u Let_def)
qed

lemma cosineSimilarity_overflow: "cosineSimilarity [2 ^ 600] [2 ^ 600] = NaN"
proof -
  have "round64 (2 ^ 600 * 2 ^ 600) = Inf True"
    by (rule round64_overflow) simp
  then show ?thesis by (simp add: cosineSimilarity_def Let_def)
qed

lemma cosineSimilarity_underflow: "cosineSimilarity [1 / 2 ^ 600] [1 / 2 ^ 600] = Num 0"
proof -
  have "round64 (1 / 2 ^ 600 * (1 / 2 ^ 600)) = Num 0"
    by (rule round64_underflow) simp_all
  then show ?thesis by (simp add: cosineSimilarity_def Let_def)
qed

lemma example_similarity: "cosineSimilarity [1, 0] [1, 0] = Num 1"
  by (simp add: cosineSimilarity_def Let_def)

lemma example_orthogonal: "cosineSimilarity [0, 1] [1, 0] = Num 0"
  by (simp add: cosineSimilarity_def Let_def)




text \<open>
  Claim C9. On vectors of equal length, if the norm the code computes for either vector
  is zero, as it is for the all-zero vector, cosineSimilarity returns 0. Otherwise it
  returns the quotient of the accumulated dot product by the product of the two norms,
  and that product is not zero: the division is never a division by zero.
\<close>

theorem cosineSimilarity_zero_norm:
  assumes "length a = length b"
  shows "(js_is_zero (computed_norm a) \<or> js_is_zero (computed_norm b) \<longrightarrow>
            cosineSimilarity a b = Num 0) \<and>
         ((\<forall>x\<in>set a. x = 0) \<or> (\<forall>x\<in>set b. x = 0) \<longrightarrow> cosineSimilarity a b = Num 0) \<and>
         (\<not> js_is_zero (computed_norm a) \<and> \<not> js_is_zero (computed_norm b) \<longrightarrow>
            \<not> js_is_zero (js_mul (computed_norm a) (computed_norm b)) \<and>
            cosineSimilarity a b =
              js_div (sum_products a b (Num 0)) (js_mul (computed_norm a) (computed_norm b)))"
proof (intro conjI impI)
  assume "js_is_zero (computed_norm a) \<or> js_is_zero (computed_norm b)"
  then show "cosineSimilarity a b = Num 0"
    by (simp add: cosineSimilarity_parts [OF assms])
next
  assume "(\<forall>x\<in>set a. x = 0) \<or> (\<forall>x\<in>set b. x = 0)"
  then have "js_is_zero (computed_norm a) \<or> js_is_zero (computed_norm b)"
    by (auto simp: computed_norm_def sum_squares_zeros)
  then show "cosineSimilarity a b = Num 0"
    by (simp add: cosineSimilarity_parts [OF assms])
next
  assume nz: "\<not> js_is_zero (computed_norm a) \<and> \<not> js_is_zero (computed_norm b)"
  then show "\<not> js_is_zero (js_mul (computed_norm a) (computed_norm b))"
    using product_of_norms_nonzero [OF norm_like_computed_norm norm_like_computed_norm] by blast
  show "cosineSimilarity a b =
          js_div (sum_products a b (Num 0)) (js_mul (computed_norm a) (computed_norm b))"
    using nz by (simp add: cosineSimilarity_parts [OF assms])
qed

theorem cosineSimilarity_zero_norm_witness:
  "cosineSimilarity [0, 0] [1, 2] = Num 0 \<and> cosineSimilarity [3, 4] [0, 0] = Num 0 \<and>
   \<not> js_is_zero (js_mul (computed_norm [1, 0]) (computed_norm [1, 1]))"
  using cosineSimilarity_zero_norm [of "[0, 0]" "[1, 2]"]
        cosineSimilarity_zero_norm [of "[3, 4]" "[0, 0]"]
        cosineSimilarity_zero_norm [of "[1, 0]" "[1, 1]"]
  by (simp add: computed_norm_def round64_sqrt_2)

section \<open>Properties of matchFace and of the loop over the detected faces\<close>

lemma js_gt_irrefl: "\<not> js_gt a a"
  by (cases a) simp_all

lemma js_gt_trans: "js_gt c b \<Longrightarrow> js_gt b a \<Longrightarrow> js_gt c a"
  by (cases a; cases b; cases c) auto

lemma js_gt_asym: "js_gt a b \<Longrightarrow> \<not> js_gt b a"
  by (cases a; cases b) auto

lemma js_gt_above: "js_gt c b \<Longrightarrow> \<not> js_gt a b \<Longrightarrow> \<not> js_gt a c"
  by (cases a; cases b; cases c) auto

lemma matchFace_loop_cases:
  "(matchFace_loop e fg (bm, best) = (bm, best) \<and>
      (\<forall>(k, g)\<in>set fg. \<not> js_gt (cosineSimilarity e (referenceEmbedding g)) best)) \<or>
   (\<exists>k g. (k, g) \<in> set fg \<and>
      matchFace_loop e fg (bm, best) = (Some k, cosineSimilarity e (referenceEmbedding g)) \<and>
      js_gt (cosineSimilarity e (referenceEmbedding g)) best \<and>
      (\<forall>(k', g')\<in>set fg. \<not> js_gt (cosineSimilarity e (referenceEmbedding g'))
                                   (cosineSimilarity e (referenceEmbedding g))))"
proof (induction fg arbitrary: bm best)
  case Nil
  show ?case by simp
next
  case (Cons p rest)
  obtain k0 g0 where p: "p = (k0, g0)" by (cases p)
  let ?s = "\<lambda>g. cosineSimilarity e (referenceEmbedding g)"
  show ?case
  proof (cases "js_gt (?s g0) best")
    case True
    from Cons.IH [of "Some k0" "?s g0"]
    consider (same) "matchFace_loop e rest (Some k0, ?s g0) = (Some k0, ?s g0)"
        "\<forall>(k, g)\<in>set rest. \<not> js_gt (?s g) (?s g0)"
      | (later) k g where "(k, g) \<in> set rest"
        "matchFace_loop e rest (Some k0, ?s g0) = (Some k, ?s g)"
        "js_gt (?s g) (?s g0)"
        "\<forall>(k', g')\<in>set rest. \<not> js_gt (?s g') (?s g)"
      by blast
    then show ?thesis
    proof cases
      case same
      have "(k0, g0) \<in> set (p # rest) \<and>
            matchFace_loop e (p # rest) (bm, best) = (Some k0, ?s g0) \<and>
            js_gt (?s g0) best \<and>
            (\<forall>(k', g')\<in>set (p # rest). \<not> js_gt (?s g') (?s g0))"
        using same True by (simp add: p js_gt_irrefl)
      then show ?thesis by blast
    next
      case later
      have "(k, g) \<in> set (p # rest) \<and>
            matchFace_loop e (p # rest) (bm, best) = (Some k, ?s g) \<and>
            js_gt (?s g) best \<and>
            (\<forall>(k', g')\<in>set (p # rest). \<not> js_gt (?s g') (?s g))"
        using later True js_gt_trans [OF later(3) True] js_gt_asym [OF later(3)]
        by (simp add: p)
      then show ?thesis by blast
    qed
  next
    case False
    from Cons.IH [of bm best]
    consider (same) "matchFace_loop e rest (bm, best) = (bm, best)"
        "\<forall>(k, g)\<in>set rest. \<not> js_gt (?s g) best"
      | (later) k g where "(k, g) \<in> set rest"
        "matchFace_loop e rest (bm, best) = (Some k, ?s g)"
        "js_gt (?s g) best"
        "\<forall>(k', g')\<in>set rest. \<not> js_gt (?s g') (?s g)"
      by blast
    then show ?thesis
    proof cases
      case same
      then show ?thesis using False by (simp add: p)
    next
      case later
      have "(k, g) \<in> set (p # rest) \<and>
            matchFace_loop e (p # rest) (bm, best) = (Some k, ?s g) \<and>
            js_gt (?s g) best \<and>
            (\<forall>(k', g')\<in>set (p # rest). \<not> js_gt (?s g') (?s g))"
        using later False js_gt_above [OF later(3) False]
        by (simp add: p)
      then show ?thesis by blast
    qed
  qed
qed


lemma matchFace_None:
  assumes "\<forall>(k, g)\<in>set fg. \<not> js_gt (cosineSimilarity e (referenceEmbedding g)) threshold"
  shows "matchFace e threshold fg = None"
  using matchFace_loop_cases [of e fg None threshold] assms
  by (auto simp: matchFace_def)

lemma matchFace_Some:
  assumes "\<exists>(k, g)\<in>set fg. js_gt (cosineSimilarity e (referenceEmbedding g)) threshold"
      and "[] \<notin> set (map fst fg)"
  shows "\<exists>k g. (k, g) \<in> set fg \<and>
           matchFace e threshold fg = Some (k, cosineSimilarity e (referenceEmbedding g)) \<and>
           js_gt (cosineSimilarity e (referenceEmbedding g)) threshold \<and>
           (\<forall>(k', g')\<in>set fg. \<not> js_gt (cosineSimilarity e (referenceEmbedding g'))
                                        (cosineSimilarity e (referenceEmbedding g)))"
proof -
  from matchFace_loop_cases [of e fg None threshold] assms(1)
  obtain k g where kg: "(k, g) \<in> set fg"
      and loop: "matchFace_loop e fg (None, threshold) =
                   (Some k, cosineSimilarity e (referenceEmbedding g))"
      and gt: "js_gt (cosineSimilarity e (referenceEmbedding g)) threshold"
      and best: "\<forall>(k', g')\<in>set fg. \<not> js_gt (cosineSimilarity e (referenceEmbedding g'))
                                          (cosineSimilarity e (referenceEmbedding g))"
    by blast
  have "k \<noteq> []"
    using kg assms(2) by force
  then have "matchFace e threshold fg = Some (k, cosineSimilarity e (referenceEmbedding g))"
    by (simp add: matchFace_def loop)
  then show ?thesis using kg gt best by blast
qed

lemma jsmap_get_member:
  "distinct (map fst m) \<Longrightarrow> (k, v) \<in> set m \<Longrightarrow> jsmap_get m k = Some v"
  by (simp add: jsmap_get_def)

lemma jsmap_has_member: "(k, v) \<in> set m \<Longrightarrow> jsmap_has m k"
  by (auto simp: jsmap_has_def map_of_eq_None_iff intro: rev_image_eqI)

lemma jsmap_set_member:
  "(k, v) \<in> set m \<Longrightarrow> distinct (map fst m) \<Longrightarrow>
   jsmap_set m k w = map (\<lambda>(k', v'). if k' = k then (k', w) else (k', v')) m"
proof (induction m)
  case Nil
  then show ?case by simp
next
  case (Cons p m)
  obtain k0 v0 where p: "p = (k0, v0)" by (cases p)
  show ?case
  proof (cases "k0 = k")
    case True
    have "k \<notin> fst ` set m" using Cons.prems(2) True by (simp add: p)
    then have "map (\<lambda>(k', v'). if k' = k then (k', w) else (k', v')) m = m"
      by (intro map_idI) force
    then show ?thesis using True by (simp add: p)
  next
    case False
    then show ?thesis using Cons by (auto simp: p)
  qed
qed

lemma assign_to_member:
  assumes "(gid, g) \<in> set fg" and "distinct (map fst fg)"
  shows "assign_to gid fname fg =
           map (\<lambda>(k, v). if k = gid then (k, g\<lparr>images := add_image fname (images g)\<rparr>) else (k, v)) fg"
proof -
  have "\<And>k v. (k, v) \<in> set fg \<Longrightarrow> k = gid \<Longrightarrow> v = g"
    using assms by (meson eq_key_imp_eq_value)
  then show ?thesis
    unfolding assign_to_def by (intro map_cong) auto
qed

lemma assign_to_unchanged:
  assumes "(gid, g) \<in> set fg" and "distinct (map fst fg)" and "fname \<in> set (images g)"
  shows "assign_to gid fname fg = fg"
proof -
  have "\<And>k v. (k, v) \<in> set fg \<Longrightarrow> k = gid \<Longrightarrow> v = g"
    using assms(1,2) by (meson eq_key_imp_eq_value)
  then show ?thesis
    unfolding assign_to_def using assms(3) by (intro map_idI) (auto simp: add_image_def)
qed

lemma keys_assign_to: "map fst (assign_to gid fname fg) = map fst fg"
  by (induction fg) (auto simp: assign_to_def)

lemma processFace_match:
  assumes "(gid, g) \<in> set (faceGroups st)"
      and "distinct (map fst (faceGroups st))"
      and "matchFace (embedding fc) default_threshold (faceGroups st) = Some (gid, sim)"
  shows "processFace env fname fc st =
           (Inr \<lparr>groupId = gid, similarity = sim\<rparr>,
            st\<lparr>faceGroups := assign_to gid fname (faceGroups st)\<rparr>)"
proof (cases "fname \<in> set (images g)")
  case True
  show ?thesis
    using assms True
    by (simp add: processFace_def jsmap_has_member jsmap_get_member assign_to_unchanged)
next
  case False
  then have ai: "add_image fname (images g) = images g @ [fname]"
    by (simp add: add_image_def)
  have fg: "jsmap_set (faceGroups st) gid (g\<lparr>images := images g @ [fname]\<rparr>) =
              assign_to gid fname (faceGroups st)"
    by (simp only: jsmap_set_member [OF assms(1,2)] assign_to_member [OF assms(1,2)] ai)
  show ?thesis
    using assms False
    by (simp add: processFace_def jsmap_has_member jsmap_get_member fg)
qed

text \<open>
  Claim C1. In a map of face groups with distinct keys, none of them the empty string
  (every id the code generates starts with \<^verbatim>\<open>face_\<close>), if some group has a similarity
  with the face above 0.6, then the loop step of processImage for that face picks a group
  whose similarity is above 0.6 and is exceeded by no group's, pushes the entry with that
  group's id and that similarity, and continues in the state where that group's images
  have the filename added if it was absent; every other group, the keys of the map and
  the count of generated ids are as before.
\<close>

theorem processFaces_assigns_best_match:
  assumes "distinct (map fst (faceGroups st))"
      and "[] \<notin> set (map fst (faceGroups st))"
      and "\<exists>(k, g)\<in>set (faceGroups st).
             js_gt (cosineSimilarity (embedding fc) (referenceEmbedding g)) default_threshold"
  shows "\<exists>gid g. (gid, g) \<in> set (faceGroups st) \<and>
           js_gt (cosineSimilarity (embedding fc) (referenceEmbedding g)) default_threshold \<and>
           (\<forall>(k', g')\<in>set (faceGroups st).
               \<not> js_gt (cosineSimilarity (embedding fc) (referenceEmbedding g'))
                        (cosineSimilarity (embedding fc) (referenceEmbedding g))) \<and>
           processFaces env fname (fc # fcs) st gs =
             processFaces env fname fcs
               (st\<lparr>faceGroups := assign_to gid fname (faceGroups st)\<rparr>)
               (gs @ [\<lparr>groupId = gid,
                        similarity = cosineSimilarity (embedding fc) (referenceEmbedding g)\<rparr>]) \<and>
           jsmap_get (assign_to gid fname (faceGroups st)) gid =
             Some (g\<lparr>images := add_image fname (images g)\<rparr>) \<and>
           map fst (assign_to gid fname (faceGroups st)) = map fst (faceGroups st)"
proof -
  from matchFace_Some [OF assms(3,2)]
  obtain gid g where kg: "(gid, g) \<in> set (faceGroups st)"
      and m: "matchFace (embedding fc) default_threshold (faceGroups st) =
                Some (gid, cosineSimilarity (embedding fc) (referenceEmbedding g))"
      and gt: "js_gt (cosineSimilarity (embedding fc) (referenceEmbedding g)) default_threshold"
      and best: "\<forall>(k', g')\<in>set (faceGroups st).
               \<not> js_gt (cosineSimilarity (embedding fc) (referenceEmbedding g'))
                        (cosineSimilarity (embedding fc) (referenceEmbedding g))"
    by blast
  have step: "processFaces env fname (fc # fcs) st gs =
             processFaces env fname fcs
               (st\<lparr>faceGroups := assign_to gid fname (faceGroups st)\<rparr>)
               (gs @ [\<lparr>groupId = gid,
                        similarity = cosineSimilarity (embedding fc) (referenceEmbedding g)\<rparr>])"
    by (simp add: processFace_match [OF kg assms(1) m])
  have "(gid, g\<lparr>images := add_image fname (images g)\<rparr>) \<in> set (assign_to gid fname (faceGroups st))"
    using kg by (force simp: assign_to_def)
  then have get: "jsmap_get (assign_to gid fname (faceGroups st)) gid =
             Some (g\<lparr>images := add_image fname (images g)\<rparr>)"
    using assms(1) by (simp add: jsmap_get_member keys_assign_to)
  show ?thesis
    using kg gt best step get keys_assign_to by blast
qed


theorem processFaces_assigns_best_match_witness:
  "processFaces example_env ''y.jpg'' [example_face, example_face] matched_store [] =
     (Inr [\<lparr>groupId = ''face_1700000000000_k3j9x2m1q'', similarity = Num 1\<rparr>,
           \<lparr>groupId = ''face_1700000000000_k3j9x2m1q'', similarity = Num 1\<rparr>],
      matched_store\<lparr>faceGroups := [(''face_1700000000000_k3j9x2m1q'',
           \<lparr>referenceEmbedding = [1, 0], images = [''x.jpg'', ''y.jpg'']\<rparr>)]\<rparr>)"
  using processFaces_assigns_best_match
          [of matched_store example_face example_env "''y.jpg''" "[example_face]" "[]"]
  by (simp add: matched_store_def empty_store_def example_face_def example_similarity
        default_threshold_def assign_to_def add_image_def processFace_def matchFace_def
        jsmap_has_def jsmap_get_def)


lemma jsmap_get_set: "jsmap_get (jsmap_set m k v) k' = (if k' = k then Some v else jsmap_get m k')"
  by (induction m) (auto simp: jsmap_get_def)

lemma jsmap_set_fresh: "k \<notin> set (map fst m) \<Longrightarrow> jsmap_set m k v = m @ [(k, v)]"
  by (induction m) auto


lemma keys_jsmap_set:
  "map fst (jsmap_set m k v) =
     (if k \<in> set (map fst m) then map fst m else map fst m @ [k])"
proof (induction m)
  case Nil
  show ?case by simp
next
  case (Cons p m)
  obtain k0 v0 where p: "p = (k0, v0)" by (cases p)
  show ?case using Cons.IH by (cases "k0 = k") (simp_all add: p)
qed

lemma jsmap_has_get: "jsmap_has m k \<longleftrightarrow> (\<exists>v. jsmap_get m k = Some v)"
  by (simp add: jsmap_has_def jsmap_get_def)


lemma matchFace_key:
  assumes "matchFace e threshold fg = Some (gid, sim)"
  shows "gid \<in> set (map fst fg)"
proof -
  from matchFace_loop_cases [of e fg None threshold] assms
  obtain g where "(gid, g) \<in> set fg"
    by (auto simp: matchFace_def split: if_splits)
  then show ?thesis by force
qed

lemma processFace_new:
  assumes "matchFace (embedding fc) default_threshold (faceGroups st) = None"
  shows "processFace env fname fc st =
           (Inr \<lparr>groupId = newGroupId (idSource env (idsDrawn st)), similarity = Num 1\<rparr>,
            st\<lparr>faceGroups := jsmap_set (faceGroups st) (newGroupId (idSource env (idsDrawn st)))
                                \<lparr>referenceEmbedding = embedding fc, images = [fname]\<rparr>,
               idsDrawn := Suc (idsDrawn st)\<rparr>)"
  using assms by (simp add: processFace_def Let_def)

text \<open>
  Claim C2, as amended. If no group has a similarity with the face above 0.6 (in
  particular if there is no group), the loop step of processImage for that face stores,
  under the id built from the readings of the clock and the random generator, the group
  with that face's embedding as reference and the filename as only image, and pushes the
  entry with that id and similarity 1. When the id is not a key of the map, this is a new
  group at the end of the map; the code does not check it.
\<close>

theorem processFaces_creates_group:
  assumes "\<forall>(k, g)\<in>set (faceGroups st).
             \<not> js_gt (cosineSimilarity (embedding fc) (referenceEmbedding g)) default_threshold"
  shows "processFaces env fname (fc # fcs) st gs =
           processFaces env fname fcs
             (st\<lparr>faceGroups := jsmap_set (faceGroups st) (newGroupId (idSource env (idsDrawn st)))
                                  \<lparr>referenceEmbedding = embedding fc, images = [fname]\<rparr>,
                 idsDrawn := Suc (idsDrawn st)\<rparr>)
             (gs @ [\<lparr>groupId = newGroupId (idSource env (idsDrawn st)), similarity = Num 1\<rparr>]) \<and>
         jsmap_get (jsmap_set (faceGroups st) (newGroupId (idSource env (idsDrawn st)))
                      \<lparr>referenceEmbedding = embedding fc, images = [fname]\<rparr>)
           (newGroupId (idSource env (idsDrawn st))) =
           Some \<lparr>referenceEmbedding = embedding fc, images = [fname]\<rparr> \<and>
         (newGroupId (idSource env (idsDrawn st)) \<notin> set (map fst (faceGroups st)) \<longrightarrow>
            jsmap_set (faceGroups st) (newGroupId (idSource env (idsDrawn st)))
              \<lparr>referenceEmbedding = embedding fc, images = [fname]\<rparr> =
            faceGroups st @ [(newGroupId (idSource env (idsDrawn st)),
                              \<lparr>referenceEmbedding = embedding fc, images = [fname]\<rparr>)])"
  using processFace_new [OF matchFace_None [OF assms], of env fname]
  by (simp add: jsmap_get_set jsmap_set_fresh)

theorem processFaces_creates_group_witness:
  "processFaces example_env ''z.jpg'' [other_face] matched_store [] =
     (Inr [\<lparr>groupId = ''face_1700000000000_aa'', similarity = Num 1\<rparr>],
      matched_store\<lparr>faceGroups :=
          [(''face_1700000000000_k3j9x2m1q'', \<lparr>referenceEmbedding = [1, 0], images = [''x.jpg'']\<rparr>),
           (''face_1700000000000_aa'', \<lparr>referenceEmbedding = [0, 1], images = [''z.jpg'']\<rparr>)],
        idsDrawn := 2\<rparr>)"
  using processFaces_creates_group [of matched_store other_face example_env "''z.jpg''" "[]" "[]"]
  by (simp add: matched_store_def empty_store_def other_face_def example_env_def
        default_threshold_def cosineSimilarity_def Let_def newGroupId_def)

text \<open>
  Claim C2 as stated fails where the readings repeat: the id of the group created for a
  face that matches no group is then an id already in the map.
\<close>

theorem generated_id_collides:
  "cosineSimilarity (embedding other_face) [1, 0] = Num 0 \<and>
   faceGroups matched_store =
     [(''face_1700000000000_k3j9x2m1q'', \<lparr>referenceEmbedding = [1, 0], images = [''x.jpg'']\<rparr>)] \<and>
   fst (processImage colliding_env ''z.jpg'' matched_store) =
     Inr (RecordFile \<lparr>filename = ''z.jpg'', faces = [other_face],
            groups = [\<lparr>groupId = ''face_1700000000000_k3j9x2m1q'', similarity = Num 1\<rparr>]\<rparr>)"
  by (simp add: run_defs colliding_env_def matched_store_def other_face_def cosineSimilarity_def)

section \<open>Properties of processImage\<close>

lemma processFace_facesDir: "facesDir (snd (processFace env fname fc st)) = facesDir st"
  by (simp add: processFace_def Let_def split: option.splits prod.splits)

lemma processFaces_facesDir: "facesDir (snd (processFaces env fname fcs st gs)) = facesDir st"
proof (induction fcs arbitrary: st gs)
  case Nil
  show ?case by simp
next
  case (Cons fc fcs)
  show ?case
  proof (cases "processFace env fname fc st")
    case (Pair r st')
    have fd: "facesDir st' = facesDir st"
      using processFace_facesDir [of env fname fc st] Pair by simp
    show ?thesis
      using Pair fd Cons.IH [of st'] by (cases r) simp_all
  qed
qed

text \<open>
  Claim C3. When the record file of a filename already holds a record, processImage
  leaves the whole state as it is: no call of the detector, no change of a face group,
  no write of a file, no run of saveFaceGroups. When the image file exists (the check
  that comes first), it returns the stored record.
\<close>

theorem processImage_cached:
  assumes "facesDir st (faceDataPath fname) = Some (RecordFile r)"
  shows "snd (processImage env fname st) = st \<and>
         (existsSync env (joinBase env fname) \<longrightarrow>
            processImage env fname st = (Inr (RecordFile r), st))"
  using assms by (simp add: processImage_def Let_def)

theorem processImage_cached_witness:
  "processImage example_env ''a.jpg'' cached_store =
     (Inr (RecordFile \<lparr>filename = ''a.jpg'', faces = [], groups = []\<rparr>), cached_store)"
  using processImage_cached [of cached_store "''a.jpg''"
          "\<lparr>filename = ''a.jpg'', faces = [], groups = []\<rparr>" example_env]
  by (simp add: cached_store_def empty_store_def faceDataPath_def example_env_def)



lemma processImage_Inr_persisted:
  assumes "processImage env fname st = (Inr r, st1)"
      and "faceDataPath fname \<noteq> groupsFile"
  shows "facesDir st1 (faceDataPath fname) = Some r"
proof (cases "facesDir st (faceDataPath fname)")
  case (Some cached)
  then show ?thesis
    using assms(1) by (auto simp: processImage_def Let_def split: if_splits)
next
  case None
  let ?st0 = "st\<lparr>detectCalls := detectCalls st @ [joinBase env fname]\<rparr>"
  show ?thesis
  proof (cases "detectFaces env (joinBase env fname)")
    case (Inl msg)
    then show ?thesis
      using assms(1) None by (auto simp: processImage_def Let_def split: if_splits)
  next
    case (Inr detected)
    show ?thesis
    proof (cases "detected = []")
      case True
      then show ?thesis
        using assms(1) None Inr by (auto simp: processImage_def Let_def split: if_splits)
    next
      case False
      obtain res st2 where pf: "processFaces env fname detected ?st0 [] = (res, st2)"
        by (cases "processFaces env fname detected ?st0 []")
      show ?thesis
        using assms None Inr False pf
        by (cases res) (auto simp: processImage_def Let_def saveFaceGroups_def split: if_splits)
    qed
  qed
qed

text \<open>
  Claim C10. The filenames \<^verbatim>\<open>a/b.jpg\<close> and \<^verbatim>\<open>a_b.jpg\<close> differ and have the same
  record file. Once processImage has returned a record for \<^verbatim>\<open>a/b.jpg\<close>, which had no
  record file before, processImage of \<^verbatim>\<open>a_b.jpg\<close> returns that same record, whose
  filename is \<^verbatim>\<open>a/b.jpg\<close>, and leaves the state as it is: the detector is not called.
\<close>

theorem record_key_collision:
  assumes "existsSync env (joinBase env ''a_b.jpg'')"
      and "processImage env ''a/b.jpg'' st = (Inr r, st1)"
      and "facesDir st (faceDataPath ''a/b.jpg'') = None"
  shows "''a/b.jpg'' \<noteq> ''a_b.jpg'' \<and>
         faceDataPath ''a/b.jpg'' = faceDataPath ''a_b.jpg'' \<and>
         (\<exists>rec. r = RecordFile rec \<and> filename rec = ''a/b.jpg'') \<and>
         processImage env ''a_b.jpg'' st1 = (Inr r, st1)"
proof -
  have key: "faceDataPath ''a/b.jpg'' = faceDataPath ''a_b.jpg''"
    by (simp add: faceDataPath_def)
  have "faceDataPath ''a/b.jpg'' \<noteq> groupsFile"
    by (simp add: faceDataPath_def groupsFile_def)
  then have stored: "facesDir st1 (faceDataPath ''a_b.jpg'') = Some r"
    using processImage_Inr_persisted [OF assms(2)] key by simp
  have second: "processImage env ''a_b.jpg'' st1 = (Inr r, st1)"
    using stored assms(1) by (simp add: processImage_def Let_def)
  let ?st0 = "st\<lparr>detectCalls := detectCalls st @ [joinBase env ''a/b.jpg'']\<rparr>"
  obtain res st2 where pf: "processFaces env ''a/b.jpg'' (projr (detectFaces env (joinBase env ''a/b.jpg''))) ?st0 [] = (res, st2)"
    by (cases "processFaces env ''a/b.jpg'' (projr (detectFaces env (joinBase env ''a/b.jpg''))) ?st0 []")
  have "\<exists>rec. r = RecordFile rec \<and> filename rec = ''a/b.jpg''"
    using assms(2,3) pf
    by (cases res) (auto simp: processImage_def Let_def split: if_splits sum.splits)
  then show ?thesis using key second by simp
qed

theorem record_key_collision_witness:
  "processImage example_env ''a_b.jpg'' (snd (processImage example_env ''a/b.jpg'' empty_store)) =
     (Inr (RecordFile \<lparr>filename = ''a/b.jpg'', faces = [example_face],
               groups = [\<lparr>groupId = ''face_1700000000000_a'', similarity = Num 1\<rparr>]\<rparr>),
      snd (processImage example_env ''a/b.jpg'' empty_store)) \<and>
   detectCalls (snd (processImage example_env ''a/b.jpg'' empty_store)) = [''/media/a/b.jpg'']"
proof -
  have first: "fst (processImage example_env ''a/b.jpg'' empty_store) =
      Inr (RecordFile \<lparr>filename = ''a/b.jpg'', faces = [example_face],
               groups = [\<lparr>groupId = ''face_1700000000000_a'', similarity = Num 1\<rparr>]\<rparr>)"
    by (simp add: processImage_def example_env_def empty_store_def Let_def faceDataPath_def
        processFace_def matchFace_def default_threshold_def newGroupId_def example_face_def
        saveFaceGroups_def groupsFile_def)
  have run: "processImage example_env ''a/b.jpg'' empty_store =
      (Inr (RecordFile \<lparr>filename = ''a/b.jpg'', faces = [example_face],
               groups = [\<lparr>groupId = ''face_1700000000000_a'', similarity = Num 1\<rparr>]\<rparr>),
       snd (processImage example_env ''a/b.jpg'' empty_store))"
    using first by (metis prod.collapse)
  have calls: "detectCalls (snd (processImage example_env ''a/b.jpg'' empty_store)) = [''/media/a/b.jpg'']"
    by (simp add: processImage_def example_env_def empty_store_def Let_def faceDataPath_def
        processFace_def matchFace_def default_threshold_def newGroupId_def example_face_def
        saveFaceGroups_def groupsFile_def)
  have ex: "existsSync example_env (joinBase example_env ''a_b.jpg'')"
    by (simp add: example_env_def)
  have none: "facesDir empty_store (faceDataPath ''a/b.jpg'') = None"
    by (simp add: empty_store_def)
  show ?thesis
    using record_key_collision [OF ex run none] calls by blast
qed

section \<open>Properties of processImages\<close>

lemma loop_results:
  assumes "callback_returns cb"
  shows "fst (processImages_loop env cb n i fnames st results calls) =
           results @ batch_results env fnames st"
  using assms
proof (induction fnames arbitrary: i st results calls)
  case Nil
  show ?case by simp
next
  case (Cons fname rest)
  obtain r st' where step: "processImage env fname st = (r, st')"
    by (cases "processImage env fname st")
  show ?case
  proof (cases r)
    case (Inl e)
    then show ?thesis
      using step Cons.IH [OF Cons.prems] by simp
  next
    case (Inr result)
    then show ?thesis
      using step Cons.IH [OF Cons.prems] Cons.prems
      by (cases cb) (simp_all add: callback_returns_def)
  qed
qed

lemma length_batch_results: "length (batch_results env fnames st) = length fnames"
proof (induction fnames arbitrary: st)
  case Nil
  show ?case by simp
next
  case (Cons fname rest)
  obtain r st' where step: "processImage env fname st = (r, st')"
    by (cases "processImage env fname st")
  then show ?case using Cons.IH [of st'] by (cases r) simp_all
qed

lemma calls_Cons:
  "map (\<lambda>j. (i + j + 1, n, (fname # rest) ! j))
     (filter (\<lambda>j. (b # bs) ! j) [0..<Suc (length rest)]) =
   (if b then [(i + 1, n, fname)] else []) @
   map (\<lambda>j. (Suc i + j + 1, n, rest ! j)) (filter (\<lambda>j. bs ! j) [0..<length rest])"
proof -
  have "[0..<Suc (length rest)] = 0 # map Suc [0..<length rest]"
    by (simp add: upt_conv_Cons map_Suc_upt del: upt_Suc)
  then show ?thesis
    by (simp add: filter_map comp_def del: upt_Suc)
qed

lemma loop_calls:
  "fst (snd (processImages_loop env (Some c) n i fnames st results calls)) =
     calls @ map (\<lambda>j. (i + j + 1, n, fnames ! j))
               (filter (\<lambda>j. succeeded env fnames st ! j) [0..<length fnames])"
proof (induction fnames arbitrary: i st results calls)
  case Nil
  show ?case by simp
next
  case (Cons fname rest)
  obtain r st' where step: "processImage env fname st = (r, st')"
    by (cases "processImage env fname st")
  show ?case
  proof (cases r)
    case (Inl e)
    have s: "succeeded env (fname # rest) st = False # succeeded env rest st'"
      using step Inl by simp
    have len: "length (fname # rest) = Suc (length rest)" by simp
    show ?thesis
      unfolding s len calls_Cons
      using step Inl Cons.IH [of "Suc i" st'] by simp
  next
    case (Inr result)
    have s: "succeeded env (fname # rest) st = True # succeeded env rest st'"
      using step Inr by simp
    have len: "length (fname # rest) = Suc (length rest)" by simp
    show ?thesis
      unfolding s len calls_Cons
      using step Inr Cons.IH [of "Suc i" st']
      by (cases "c (Suc i) n fname") simp_all
  qed
qed

lemma loop_no_callback:
  "fst (snd (processImages_loop env None n i fnames st results calls)) = calls"
proof (induction fnames arbitrary: i st results)
  case Nil
  show ?case by simp
next
  case (Cons fname rest)
  obtain r st' where step: "processImage env fname st = (r, st')"
    by (cases "processImage env fname st")
  then show ?case using Cons.IH by (cases r) simp_all
qed

text \<open>
  Claim C4, as amended. Without a callback no progress call is made. With a callback,
  the calls made are, in the order of the input list, one call
  \<^verbatim>\<open>(position + 1, total, filename)\<close> for each filename whose processing succeeded,
  and none for a filename whose processing threw.
\<close>

theorem processImages_progress_calls:
  "fst (snd (processImages env filenames None st)) = [] \<and>
   fst (snd (processImages env filenames (Some c) st)) = expected_calls env filenames st"
  by (simp add: processImages_def loop_no_callback loop_calls expected_calls_def)

theorem processImages_progress_calls_witness:
  "fst (snd (processImages example_env [''empty.jpg'', ''missing.jpg'', ''a.jpg'']
               (Some (\<lambda>i n fname. None)) empty_store)) =
     [(1, 3, ''empty.jpg''), (3, 3, ''a.jpg'')]"
proof -
  have "expected_calls example_env [''empty.jpg'', ''missing.jpg'', ''a.jpg''] empty_store =
          [(1, 3, ''empty.jpg''), (3, 3, ''a.jpg'')]"
    by (simp add: expected_calls_def run_defs upt_rec)
  then show ?thesis
    using processImages_progress_calls [of example_env "[''empty.jpg'', ''missing.jpg'', ''a.jpg'']"
             empty_store "\<lambda>i n fname. None"]
    by simp
qed

text \<open>
  Claim C4 as stated fails: for a filename whose image is missing the error is recorded
  and the callback is not called.
\<close>

theorem progress_skips_failure:
  "processImages example_env [''missing.jpg''] (Some (\<lambda>i n fname. None)) empty_store =
     ([Failed ''missing.jpg'' ''Image not found: /media/missing.jpg''], [], empty_store) \<and>
   fst (snd (processImages example_env [''missing.jpg''] (Some (\<lambda>i n fname. None)) empty_store)) \<noteq>
     [(1, 1, ''missing.jpg'')]"
  by (simp add: run_defs)

text \<open>
  Claim C5, as amended. When no callback is passed, or the callback returns normally on
  every call, the returned list has one entry per filename, in input order: the result
  of processImage where it succeeded, the filename and the error message where it
  threw; every filename is processed, in the state left by the ones before it.
\<close>

theorem processImages_results:
  assumes "callback_returns cb"
  shows "fst (processImages env filenames cb st) = batch_results env filenames st \<and>
         length (fst (processImages env filenames cb st)) = length filenames"
  using loop_results [OF assms, of env "length filenames" 0 filenames st "[]" "[]"]
  by (simp add: processImages_def length_batch_results)


theorem processImages_results_witness:
  "fst (processImages example_env [''empty.jpg'', ''missing.jpg'', ''broken.jpg'']
          (Some (\<lambda>i n fname. None)) empty_store) =
     [Processed (RecordFile \<lparr>filename = ''empty.jpg'', faces = [], groups = []\<rparr>),
      Failed ''missing.jpg'' ''Image not found: /media/missing.jpg'',
      Failed ''broken.jpg'' ''Input buffer contains unsupported image format'']"
proof -
  have "batch_results example_env [''empty.jpg'', ''missing.jpg'', ''broken.jpg''] empty_store =
     [Processed (RecordFile \<lparr>filename = ''empty.jpg'', faces = [], groups = []\<rparr>),
      Failed ''missing.jpg'' ''Image not found: /media/missing.jpg'',
      Failed ''broken.jpg'' ''Input buffer contains unsupported image format'']"
    by (simp add: run_defs)
  moreover have "callback_returns (Some (\<lambda>i n fname. None))"
    by (simp add: callback_returns_def)
  ultimately show ?thesis
    using processImages_results [of "Some (\<lambda>i n fname. None)" example_env
            "[''empty.jpg'', ''missing.jpg'', ''broken.jpg'']" empty_store]
    by simp
qed

text \<open>
  Claim C5 as stated fails: the callback runs inside the \<^verbatim>\<open>try\<close> block after the
  result was pushed, so a callback that throws adds an error entry for a filename whose
  result is already in the list.
\<close>

theorem throwing_callback_adds_entry:
  "fst (processImages example_env [''empty.jpg''] (Some (\<lambda>i n fname. Some ''progress failed''))
          empty_store) =
     [Processed (RecordFile \<lparr>filename = ''empty.jpg'', faces = [], groups = []\<rparr>),
      Failed ''empty.jpg'' ''progress failed''] \<and>
   length (fst (processImages example_env [''empty.jpg'']
                  (Some (\<lambda>i n fname. Some ''progress failed'')) empty_store)) \<noteq>
     length [''empty.jpg'']"
  by (simp add: run_defs)

section \<open>Properties of the face groups over the operations\<close>




















text \<open>
  The two conditions on the keys that the loop step is proved under are kept by
  processImage: the keys stay distinct, and none is the empty string.
\<close>

lemma keys_ok_jsmap_set:
  assumes "distinct (map fst m) \<and> [] \<notin> set (map fst m)" and "k \<noteq> []"
  shows "distinct (map fst (jsmap_set m k v)) \<and> [] \<notin> set (map fst (jsmap_set m k v))"
  using assms by (auto simp: keys_jsmap_set)

lemma matchFace_nonempty_id: "matchFace e threshold fg = Some (gid, sim) \<Longrightarrow> gid \<noteq> []"
  by (auto simp: matchFace_def split: prod.splits option.splits if_splits)

lemma newGroupId_nonempty: "newGroupId reading \<noteq> []"
  by (simp add: newGroupId_def)

lemma processFace_match_state:
  assumes "matchFace (embedding fc) default_threshold (faceGroups st) = Some (gid, sim)"
  shows "\<exists>grp. jsmap_get (faceGroups st) gid = Some grp \<and>
           snd (processFace env fname fc st) =
             (if fname \<in> set (images grp) then st
              else st\<lparr>faceGroups := jsmap_set (faceGroups st) gid
                                      (grp\<lparr>images := images grp @ [fname]\<rparr>)\<rparr>)"
proof -
  have "gid \<in> set (map fst (faceGroups st))"
    using matchFace_key assms by simp
  then have "map_of (faceGroups st) gid \<noteq> None"
    by (simp add: map_of_eq_None_iff)
  then obtain grp where grp: "jsmap_get (faceGroups st) gid = Some grp"
    by (auto simp: jsmap_get_def)
  have has: "jsmap_has (faceGroups st) gid"
    using grp by (simp add: jsmap_has_get)
  have "snd (processFace env fname fc st) =
             (if fname \<in> set (images grp) then st
              else st\<lparr>faceGroups := jsmap_set (faceGroups st) gid
                                      (grp\<lparr>images := images grp @ [fname]\<rparr>)\<rparr>)"
    using assms has grp by (simp add: processFace_def)
  then show ?thesis using grp by blast
qed

lemma processFace_keys_ok:
  assumes "distinct (map fst (faceGroups st)) \<and> [] \<notin> set (map fst (faceGroups st))"
  shows "distinct (map fst (faceGroups (snd (processFace env fname fc st)))) \<and>
         [] \<notin> set (map fst (faceGroups (snd (processFace env fname fc st))))"
proof (cases "matchFace (embedding fc) default_threshold (faceGroups st)")
  case None
  show ?thesis
    using keys_ok_jsmap_set [OF assms newGroupId_nonempty]
    by (simp add: processFace_new [OF None])
next
  case (Some m)
  obtain gid sim where m: "matchFace (embedding fc) default_threshold (faceGroups st) = Some (gid, sim)"
    using Some by (cases m) simp
  have ne: "gid \<noteq> []"
    using m by (rule matchFace_nonempty_id)
  from processFace_match_state [OF m, of env fname]
  obtain grp where
    "snd (processFace env fname fc st) =
       (if fname \<in> set (images grp) then st
        else st\<lparr>faceGroups := jsmap_set (faceGroups st) gid
                                (grp\<lparr>images := images grp @ [fname]\<rparr>)\<rparr>)"
    by blast
  then show ?thesis
    using assms keys_ok_jsmap_set [OF assms ne] by simp
qed

lemma processFaces_keys_ok:
  assumes "distinct (map fst (faceGroups st)) \<and> [] \<notin> set (map fst (faceGroups st))"
  shows "distinct (map fst (faceGroups (snd (processFaces env fname fcs st gs)))) \<and>
         [] \<notin> set (map fst (faceGroups (snd (processFaces env fname fcs st gs))))"
  using assms
proof (induction fcs arbitrary: st gs)
  case Nil
  then show ?case by simp
next
  case (Cons fc fcs)
  obtain r st' where step: "processFace env fname fc st = (r, st')"
    by (cases "processFace env fname fc st")
  have one: "distinct (map fst (faceGroups st')) \<and> [] \<notin> set (map fst (faceGroups st'))"
    using processFace_keys_ok [OF Cons.prems, of env fname fc] step by simp
  show ?case
    using step one Cons.IH [OF one] by (cases r) simp_all
qed

lemma processImage_keys_ok:
  assumes "distinct (map fst (faceGroups st)) \<and> [] \<notin> set (map fst (faceGroups st))"
  shows "distinct (map fst (faceGroups (snd (processImage env fname st)))) \<and>
         [] \<notin> set (map fst (faceGroups (snd (processImage env fname st))))"
proof -
  let ?st1 = "st\<lparr>detectCalls := detectCalls st @ [joinBase env fname]\<rparr>"
  have ok1: "distinct (map fst (faceGroups ?st1)) \<and> [] \<notin> set (map fst (faceGroups ?st1))"
    using assms by simp
  obtain r st2 where pf:
    "processFaces env fname (projr (detectFaces env (joinBase env fname))) ?st1 [] = (r, st2)"
    by (cases "processFaces env fname (projr (detectFaces env (joinBase env fname))) ?st1 []")
  have "distinct (map fst (faceGroups st2)) \<and> [] \<notin> set (map fst (faceGroups st2))"
    using processFaces_keys_ok
            [OF ok1, of env fname "projr (detectFaces env (joinBase env fname))" "[]"]
    unfolding pf by simp
  then show ?thesis
    using assms pf
    by (cases r) (auto simp: processImage_def Let_def saveFaceGroups_def split: option.splits sum.splits)
qed

end
